theory Spec2Isabelle
  imports Main "HOL-Library.Word"
begin

section \<open>The contract EtCloudFhe (src/contracts/EtCloudFhe.sol)\<close>

text \<open>
  A shallow embedding of the Solidity contract. Every external function of the contract
  is a HOL function from the storage before the call (and the transaction's
  \<open>msg.sender\<close> and \<open>block.timestamp\<close> where the function reads them) to either an
  error, when the call reverts, or the storage after the call. A reverted call leaves
  the storage as it was, which is how the EVM treats it.
\<close>

subsection \<open>Value types\<close>

type_synonym uint256 = "256 word"
type_synonym uint32 = "32 word"
type_synonym address = "160 word"
type_synonym bytes32 = "256 word"
type_synonym bytes4 = "32 word"
type_synonym bytes = "8 word list"

text \<open>\<open>euint32\<close> is a ciphertext handle: a user-defined value type over \<open>bytes32\<close>.\<close>

type_synonym euint32 = bytes32

subsection \<open>Structs, events and errors\<close>

text \<open>
  The field \<open>id\<close> of \<open>EncryptedImage\<close> is written \<open>id_img\<close> and the field
  \<open>timestamp\<close> of \<open>ReconstructionResult\<close> is written \<open>timestamp_res\<close>, since a
  record field is a constant of its own in HOL.
\<close>

record EncryptedImage =
  id_img :: uint256
  owner :: address
  encryptedData :: euint32
  timestamp :: uint256
  isProcessed :: bool

record ReconstructionResult =
  imageId :: uint256
  encryptedResult :: euint32
  timestamp_res :: uint256

datatype event =
    ImageUploaded uint256 address uint256
  | ReconstructionRequested uint256
  | ReconstructionCompleted uint256 uint256

text \<open>
  The ways a call of the contract reverts: a failed \<open>require\<close> with its message, the
  arithmetic panic of checked \<open>uint256\<close> addition, a revert inside the FHE library, and
  a revert of \<open>abi.decode\<close>.
\<close>

datatype error =
    Require_failed string
  | Panic_overflow
  | Library_revert
  | Abi_decode_revert

abbreviation Not_image_owner :: error where
  "Not_image_owner \<equiv> Require_failed ''Not image owner''"

abbreviation Image_already_processed :: error where
  "Image_already_processed \<equiv> Require_failed ''Image already processed''"

abbreviation Reconstruction_not_completed :: error where
  "Reconstruction_not_completed \<equiv> Require_failed ''Reconstruction not completed''"

subsection \<open>The FHE library, as a parameter\<close>

text \<open>
  The contract calls four functions of the library \<open>@fhevm/solidity/lib/FHE.sol\<close>, whose
  code is not part of the repository. They are parameters of the model: \<open>'f\<close> is whatever
  the library keeps between calls, \<open>requestDecryption\<close> hands ciphertexts to the oracle
  and returns a request id, \<open>checkSignatures\<close> accepts or rejects a callback, and
  \<open>None\<close> stands for a revert inside the library. \<open>selector\<close> is the four-byte
  selector \<open>this.processReconstruction.selector\<close>.
\<close>

record 'f FHE =
  toBytes32 :: "euint32 \<Rightarrow> bytes32"
  requestDecryption :: "'f \<Rightarrow> bytes32 list \<Rightarrow> bytes4 \<Rightarrow> (uint256 \<times> 'f) option"
  checkSignatures :: "'f \<Rightarrow> uint256 \<Rightarrow> bytes \<Rightarrow> bytes \<Rightarrow> 'f option"
  asEuint32 :: "uint32 \<Rightarrow> euint32"
  selector :: bytes4

subsection \<open>Storage\<close>

text \<open>
  A Solidity mapping has a value at every key, the zero value where nothing was written.
  The two mappings of structs are kept as partial maps, so that the model also knows
  which keys were written, and are read through \<open>image_at\<close> and \<open>result_at\<close>, which give
  the zero struct at a key never written, as the contract's reads do.
\<close>

record 'f contract =
  imageCount :: uint256
  encryptedImages :: "uint256 \<rightharpoonup> EncryptedImage"
  reconstructionResults :: "uint256 \<rightharpoonup> ReconstructionResult"
  userImages :: "address \<Rightarrow> uint256 list"
  events :: "event list"
  fhe :: 'f

definition zero_image :: EncryptedImage where
  "zero_image = \<lparr>id_img = 0, owner = 0, encryptedData = 0, timestamp = 0, isProcessed = False\<rparr>"

definition zero_result :: ReconstructionResult where
  "zero_result = \<lparr>imageId = 0, encryptedResult = 0, timestamp_res = 0\<rparr>"

definition image_at :: "'f contract \<Rightarrow> uint256 \<Rightarrow> EncryptedImage" where
  "image_at s i = (case encryptedImages s i of None \<Rightarrow> zero_image | Some r \<Rightarrow> r)"

definition result_at :: "'f contract \<Rightarrow> uint256 \<Rightarrow> ReconstructionResult" where
  "result_at s i = (case reconstructionResults s i of None \<Rightarrow> zero_result | Some r \<Rightarrow> r)"

text \<open>The storage of a freshly deployed contract; \<open>f0\<close> is the library's initial state.\<close>

definition init_contract :: "'f \<Rightarrow> 'f contract" where
  "init_contract f0 =
     \<lparr>imageCount = 0, encryptedImages = Map.empty, reconstructionResults = Map.empty,
      userImages = (\<lambda>_. []), events = [], fhe = f0\<rparr>"

subsection \<open>abi.decode(cleartexts, (uint32))\<close>

text \<open>
  The decoder reads the first 32 bytes as a big-endian word and reverts when there are
  fewer than 32 bytes or when the word does not fit \<open>uint32\<close>, that is, when one of its
  first 28 bytes is not zero.
\<close>

definition be_uint32 :: "bytes \<Rightarrow> uint32" where
  "be_uint32 bs = foldl (\<lambda>a b. a * 256 + ucast b) 0 bs"

definition abi_decode_uint32 :: "bytes \<Rightarrow> uint32 option" where
  "abi_decode_uint32 bs =
     (if length bs < 32 then None
      else if list_ex (\<lambda>b. b \<noteq> 0) (take 28 bs) then None
      else Some (be_uint32 (take 4 (drop 28 bs))))"

subsection \<open>The external functions\<close>

definition uploadEncryptedImage ::
  "'f contract \<Rightarrow> address \<Rightarrow> uint256 \<Rightarrow> euint32 \<Rightarrow> error + 'f contract" where
  "uploadEncryptedImage s sender now data =
     (if imageCount s = - 1 then Inl Panic_overflow
      else
        let newId = imageCount s + 1 in
        Inr (s\<lparr>imageCount := newId,
               encryptedImages := (encryptedImages s)(newId \<mapsto>
                 \<lparr>id_img = newId, owner = sender, encryptedData = data,
                  timestamp = now, isProcessed = False\<rparr>),
               userImages := (userImages s)(sender := userImages s sender @ [newId]),
               events := events s @ [ImageUploaded newId sender now]\<rparr>))"

text \<open>
  The request id that \<open>FHE.requestDecryption\<close> returns is bound to the local \<open>reqId\<close>
  and not used again.
\<close>

definition requestReconstruction ::
  "'f FHE \<Rightarrow> 'f contract \<Rightarrow> address \<Rightarrow> uint256 \<Rightarrow> error + 'f contract" where
  "requestReconstruction E s sender imgId =
     (if owner (image_at s imgId) \<noteq> sender then Inl Not_image_owner
      else if isProcessed (image_at s imgId) then Inl Image_already_processed
      else
        let ciphertexts = [toBytes32 E (encryptedData (image_at s imgId))] in
        case requestDecryption E (fhe s) ciphertexts (selector E) of
          None \<Rightarrow> Inl Library_revert
        | Some (reqId, f') \<Rightarrow>
            Inr (s\<lparr>events := events s @ [ReconstructionRequested imgId], fhe := f'\<rparr>))"

definition processReconstruction ::
  "'f FHE \<Rightarrow> 'f contract \<Rightarrow> uint256 \<Rightarrow> uint256 \<Rightarrow> bytes \<Rightarrow> bytes \<Rightarrow> error + 'f contract" where
  "processReconstruction E s now requestId cleartexts prf =
     (case checkSignatures E (fhe s) requestId cleartexts prf of
        None \<Rightarrow> Inl Library_revert
      | Some f' \<Rightarrow>
          (case abi_decode_uint32 cleartexts of
             None \<Rightarrow> Inl Abi_decode_revert
           | Some v \<Rightarrow>
               Inr (s\<lparr>encryptedImages := (encryptedImages s)(requestId \<mapsto>
                        (image_at s requestId)\<lparr>isProcessed := True\<rparr>),
                      reconstructionResults := (reconstructionResults s)(requestId \<mapsto>
                        \<lparr>imageId = requestId, encryptedResult = asEuint32 E v,
                         timestamp_res = now\<rparr>),
                      events := events s @ [ReconstructionCompleted requestId now],
                      fhe := f'\<rparr>)))"

text \<open>The three \<open>view\<close> functions read the storage and return no new one.\<close>

definition getReconstructionResult ::
  "'f contract \<Rightarrow> address \<Rightarrow> uint256 \<Rightarrow> error + euint32" where
  "getReconstructionResult s sender imgId =
     (if owner (image_at s imgId) \<noteq> sender then Inl Not_image_owner
      else if \<not> isProcessed (image_at s imgId) then Inl Reconstruction_not_completed
      else Inr (encryptedResult (result_at s imgId)))"

definition getUserImageIds :: "'f contract \<Rightarrow> address \<Rightarrow> uint256 list" where
  "getUserImageIds s user = userImages s user"

definition getImageMetadata ::
  "'f contract \<Rightarrow> uint256 \<Rightarrow> error + (address \<times> uint256 \<times> bool)" where
  "getImageMetadata s imgId =
     (let image = image_at s imgId in Inr (owner image, timestamp image, isProcessed image))"

subsection \<open>Sequences of transactions\<close>

text \<open>
  A transaction is a call of one of the three state-changing functions. \<open>step\<close> runs one:
  the storage after a reverted call is the storage before it. \<open>exec\<close> runs a list of
  them in order.
\<close>

datatype call =
    UploadEncryptedImage address uint256 euint32
  | RequestReconstruction address uint256
  | ProcessReconstruction uint256 uint256 bytes bytes

fun run_call :: "'f FHE \<Rightarrow> 'f contract \<Rightarrow> call \<Rightarrow> error + 'f contract" where
  "run_call E s (UploadEncryptedImage sender now data) = uploadEncryptedImage s sender now data"
| "run_call E s (RequestReconstruction sender imgId) = requestReconstruction E s sender imgId"
| "run_call E s (ProcessReconstruction now requestId cleartexts prf) =
     processReconstruction E s now requestId cleartexts prf"

definition step :: "'f FHE \<Rightarrow> 'f contract \<Rightarrow> call \<Rightarrow> 'f contract" where
  "step E s c = (case run_call E s c of Inl e \<Rightarrow> s | Inr s' \<Rightarrow> s')"

fun exec :: "'f FHE \<Rightarrow> 'f contract \<Rightarrow> call list \<Rightarrow> 'f contract" where
  "exec E s [] = s"
| "exec E s (c # cs) = exec E (step E s c) cs"

definition succeeds :: "error + 'a \<Rightarrow> bool" where
  "succeeds r = (case r of Inl e \<Rightarrow> False | Inr x \<Rightarrow> True)"

text \<open>What the event log says: the ids of the uploads, alone and with their owners.\<close>

fun uploaded_ids :: "event list \<Rightarrow> uint256 list" where
  "uploaded_ids [] = []"
| "uploaded_ids (ImageUploaded i a t # es) = i # uploaded_ids es"
| "uploaded_ids (e # es) = uploaded_ids es"

fun upload_log :: "event list \<Rightarrow> (uint256 \<times> address) list" where
  "upload_log [] = []"
| "upload_log (ImageUploaded i a t # es) = (i, a) # upload_log es"
| "upload_log (e # es) = upload_log es"

text \<open>What is stored at an id: the record's \<open>id\<close> field and its owner.\<close>

definition stored :: "'f contract \<Rightarrow> uint256 \<Rightarrow> uint256 \<times> address" where
  "stored s i = (id_img (image_at s i), owner (image_at s i))"

text \<open>The ids 1, ..., \<open>c\<close>, in this order.\<close>

definition ids_upto :: "uint256 \<Rightarrow> uint256 list" where
  "ids_upto c = map word_of_nat [1..<Suc (unat c)]"

subsection \<open>What a list of transactions asks for\<close>

text \<open>
  These read the list of calls, not the storage. \<open>accepted_uploads n cs\<close> are the callers
  of the uploads in \<open>cs\<close>, in order, when \<open>n\<close> records exist already: an upload made
  when the \<open>uint256\<close> counter is at its maximum reverts and creates nothing.
  \<open>numbered\<close> pairs the first caller with 1, the second with 2, and so on.
\<close>

fun accepted_uploads :: "nat \<Rightarrow> call list \<Rightarrow> address list" where
  "accepted_uploads n [] = []"
| "accepted_uploads n (UploadEncryptedImage a t d # cs) =
     (if n < 2 ^ 256 - 1 then a # accepted_uploads (Suc n) cs else accepted_uploads n cs)"
| "accepted_uploads n (c # cs) = accepted_uploads n cs"

definition numbered :: "address list \<Rightarrow> (uint256 \<times> address) list" where
  "numbered as = zip (map word_of_nat [1..<Suc (length as)]) as"

text \<open>
  The request ids issued in a run: each successful \<open>requestReconstruction\<close> issues the
  id that its call of \<open>FHE.requestDecryption\<close> returned.
\<close>

definition issued_by :: "'f FHE \<Rightarrow> 'f contract \<Rightarrow> call \<Rightarrow> uint256 list" where
  "issued_by E s c =
     (case c of
        RequestReconstruction sender imgId \<Rightarrow>
          (if succeeds (requestReconstruction E s sender imgId) then
             (case requestDecryption E (fhe s)
                     [toBytes32 E (encryptedData (image_at s imgId))] (selector E) of
                None \<Rightarrow> []
              | Some (reqId, f') \<Rightarrow> [reqId])
           else [])
      | _ \<Rightarrow> [])"

fun issued_ids :: "'f FHE \<Rightarrow> 'f contract \<Rightarrow> call list \<Rightarrow> uint256 list" where
  "issued_ids E s [] = []"
| "issued_ids E s (c # cs) = issued_by E s c @ issued_ids E (step E s c) cs"

subsection \<open>A stand-in for the library\<close>

text \<open>
  \<open>counting_FHE\<close> keeps the list of the requests made so far, numbers them 1, 2, 3, ...
  and accepts a callback exactly when its request id was issued and its proof is not
  empty. It serves to run the contract on concrete transactions.
\<close>

definition counting_FHE :: "bytes32 list list FHE" where
  "counting_FHE =
     \<lparr>toBytes32 = (\<lambda>h. h),
      requestDecryption = (\<lambda>f cts sel. Some (word_of_nat (Suc (length f)), f @ [cts])),
      checkSignatures = (\<lambda>f r ct pf.
        if 0 < unat r \<and> unat r \<le> length f \<and> pf \<noteq> [] then Some f else None),
      asEuint32 = (\<lambda>v. ucast v),
      selector = 0\<rparr>"

text \<open>The 32 bytes that encode the \<open>uint32\<close> value \<open>v\<close>, for \<open>v\<close> below 256.\<close>

definition cleartext_of :: "8 word \<Rightarrow> bytes" where
  "cleartext_of v = replicate 31 0 @ [v]"

subsection \<open>Invariants of the storage\<close>

text \<open>
  When \<open>as\<close> are the callers of the uploads so far: the counter is their number, the
  log and the stored records pair them with 1, 2, ..., and each owner's list holds the
  numbers of that owner's uploads, in order.
\<close>

definition created_inv :: "address list \<Rightarrow> 'f contract \<Rightarrow> bool" where
  "created_inv as s \<longleftrightarrow>
     unat (imageCount s) = length as \<and>
     upload_log (events s) = numbered as \<and>
     map (stored s) (ids_upto (imageCount s)) = numbered as \<and>
     (\<forall>u. userImages s u = map fst (filter (\<lambda>p. snd p = u) (numbered as)))"

text \<open>An id with no upload in the log has the zero owner and the zero timestamp.\<close>

definition blank_inv :: "'f contract \<Rightarrow> bool" where
  "blank_inv s \<longleftrightarrow>
     (\<forall>i. i \<notin> set (uploaded_ids (events s)) \<longrightarrow>
        owner (image_at s i) = 0 \<and> timestamp (image_at s i) = 0)"


section \<open>Auxiliary facts\<close>

subsection \<open>Arithmetic of ids\<close>

lemma word_succ_neq_zero: "(c::'a::len word) \<noteq> - 1 \<Longrightarrow> c + 1 \<noteq> 0"
  by (simp add: add_eq_0_iff2)

lemma unat_succ: "(c::'a::len word) \<noteq> - 1 \<Longrightarrow> unat (c + 1) = Suc (unat c)"
  using word_succ_neq_zero [of c] by (simp add: add.commute unatSuc)


lemma word_of_nat_less:
  "x < y \<Longrightarrow> y \<le> unat (c::'a::len word) \<Longrightarrow> (word_of_nat x :: 'a word) < word_of_nat y"
  by (metis le_unat_uoi order_less_imp_le word_less_nat_alt)

lemma sorted_ids: "sorted_wrt (<) (ids_upto c)"
  unfolding ids_upto_def
proof -
  have "sorted_wrt (<) [1..<Suc (unat c)]"
    by (rule sorted_wrt_upt)
  then have "sorted_wrt (\<lambda>x y. (word_of_nat x :: uint256) < word_of_nat y) [1..<Suc (unat c)]"
    by (rule sorted_wrt_mono_rel [rotated]) (auto intro: word_of_nat_less [where c = c])
  then show "sorted_wrt (<) (map (word_of_nat :: nat \<Rightarrow> uint256) [1..<Suc (unat c)])"
    by (simp only: sorted_wrt_map)
qed

lemma distinct_ids: "distinct (ids_upto c)"
  using sorted_ids [of c] by (simp only: strict_sorted_iff)

lemma ids_upto_zero: "ids_upto 0 = []"
  by (simp add: ids_upto_def)

lemma ids_upto_succ: "c \<noteq> - 1 \<Longrightarrow> ids_upto (c + 1) = ids_upto c @ [c + 1]"
  by (simp add: ids_upto_def unat_succ del: upt_Suc) (simp add: upt_Suc_append)

lemma numbered_Nil: "numbered [] = []"
  by (simp add: numbered_def)

lemma numbered_snoc:
  "numbered (as @ [a]) = numbered as @ [(word_of_nat (Suc (length as)), a)]"
proof -
  let ?f = "word_of_nat :: nat \<Rightarrow> uint256"
  have "[1..<Suc (Suc (length as))] = [1..<Suc (length as)] @ [Suc (length as)]"
    by (rule upt_Suc_append) simp
  then have "numbered (as @ [a]) =
      zip (map ?f [1..<Suc (length as)] @ [?f (Suc (length as))]) (as @ [a])"
    by (simp add: numbered_def del: upt_Suc)
  also have "\<dots> = zip (map ?f [1..<Suc (length as)]) as @ zip [?f (Suc (length as))] [a]"
    by (rule zip_append) (simp del: upt_Suc)
  finally show ?thesis
    by (simp add: numbered_def del: upt_Suc)
qed

lemma fst_numbered: "map fst (numbered as) = map word_of_nat [1..<Suc (length as)]"
  by (simp add: numbered_def del: upt_Suc)

lemma full_counter: "unat (c :: uint256) < 2 ^ 256 - 1 \<longleftrightarrow> c \<noteq> - 1"
proof -
  have top: "unat (- 1 :: uint256) = 2 ^ 256 - 1"
    by (simp add: unsigned_minus_1_eq_mask mask_eq_exp_minus_1)
  have bound: "unat c < 2 ^ 256"
    using unsigned_less [of c] by simp
  have "c = - 1 \<longleftrightarrow> unat c = 2 ^ 256 - 1"
    using top by (simp add: word_unat_eq_iff)
  with bound show ?thesis
    by linarith
qed

lemma succ_not_listed: "c \<noteq> - 1 \<Longrightarrow> c + 1 \<notin> set (ids_upto c)"
  using distinct_ids [of "c + 1"] by (simp add: ids_upto_succ)

subsection \<open>The event log\<close>

lemma uploaded_ids_append: "uploaded_ids (xs @ ys) = uploaded_ids xs @ uploaded_ids ys"
  by (induction xs rule: uploaded_ids.induct) simp_all

lemma upload_log_append: "upload_log (xs @ ys) = upload_log xs @ upload_log ys"
  by (induction xs rule: upload_log.induct) simp_all

subsection \<open>Evaluation of concrete runs\<close>

lemmas run_defs =
  step_def uploadEncryptedImage_def requestReconstruction_def processReconstruction_def
  getReconstructionResult_def getImageMetadata_def getUserImageIds_def
  init_contract_def counting_FHE_def image_at_def result_at_def
  zero_image_def zero_result_def succeeds_def Let_def

lemma decode_5: "abi_decode_uint32 (cleartext_of 5) = Some 5"
  by code_simp

lemma decode_9: "abi_decode_uint32 (cleartext_of 9) = Some 9"
  by code_simp

subsection \<open>The invariants hold in every reachable state\<close>

lemma created_inv_init: "created_inv [] (init_contract f0)"
  by (simp add: created_inv_def init_contract_def numbered_Nil ids_upto_zero)

lemma created_inv_upload:
  assumes "created_inv as s" and "imageCount s \<noteq> - 1"
  shows "created_inv (as @ [a]) (step E s (UploadEncryptedImage a t d))"
proof -
  let ?c = "imageCount s"
  let ?s' = "step E s (UploadEncryptedImage a t d)"
  from assms(1) have len: "unat ?c = length as"
    and log: "upload_log (events s) = numbered as"
    and recs: "map (stored s) (ids_upto ?c) = numbered as"
    and lists: "\<And>u. userImages s u = map fst (filter (\<lambda>p. snd p = u) (numbered as))"
    by (simp_all add: created_inv_def)
  have "word_of_nat (Suc (unat ?c)) = ?c + 1"
    by simp
  then have new: "word_of_nat (Suc (length as)) = ?c + 1"
    by (simp only: len)
  have s': "?s' = s\<lparr>imageCount := ?c + 1,
      encryptedImages := (encryptedImages s)(?c + 1 \<mapsto>
        \<lparr>id_img = ?c + 1, owner = a, encryptedData = d, timestamp = t, isProcessed = False\<rparr>),
      userImages := (userImages s)(a := userImages s a @ [?c + 1]),
      events := events s @ [ImageUploaded (?c + 1) a t]\<rparr>"
    using assms(2) by (simp add: step_def uploadEncryptedImage_def Let_def)
  have "unat (imageCount ?s') = length (as @ [a])"
    using assms(2) len by (simp add: s' unat_succ)
  moreover have "upload_log (events ?s') = numbered (as @ [a])"
    by (simp add: s' upload_log_append log numbered_snoc new del: of_nat_Suc)
  moreover have "map (stored ?s') (ids_upto (imageCount ?s')) = numbered (as @ [a])"
  proof -
    have old: "map (stored ?s') (ids_upto ?c) = map (stored s) (ids_upto ?c)"
      using succ_not_listed [OF assms(2)]
      by (intro map_cong) (auto simp: s' stored_def image_at_def)
    have "stored ?s' (?c + 1) = (?c + 1, a)"
      by (simp add: s' stored_def image_at_def)
    with old recs show ?thesis
      using assms(2) by (simp add: s' ids_upto_succ numbered_snoc new del: of_nat_Suc)
  qed
  moreover have "userImages ?s' u = map fst (filter (\<lambda>p. snd p = u) (numbered (as @ [a])))" for u
    by (simp add: s' lists numbered_snoc new del: of_nat_Suc)
  ultimately show ?thesis
    by (simp add: created_inv_def)
qed

lemma created_inv_other:
  assumes "created_inv as s" and "\<And>a t d. c \<noteq> UploadEncryptedImage a t d"
  shows "created_inv as (step E s c)"
proof -
  have st: "stored (step E s c) = stored s"
    using assms(2)
    by (cases c)
      (auto simp: fun_eq_iff stored_def step_def requestReconstruction_def
        processReconstruction_def image_at_def Let_def split: option.splits)
  have rest: "imageCount (step E s c) = imageCount s \<and>
      upload_log (events (step E s c)) = upload_log (events s) \<and>
      userImages (step E s c) = userImages s"
    using assms(2)
    by (cases c)
      (auto simp: step_def requestReconstruction_def processReconstruction_def
        upload_log_append Let_def split: option.splits)
  from assms(1) st rest show ?thesis
    by (simp add: created_inv_def)
qed

lemma created_inv_exec:
  "created_inv as s \<Longrightarrow>
   created_inv (as @ accepted_uploads (length as) cs) (exec E s cs)"
proof (induction cs arbitrary: as s)
  case Nil
  then show ?case by simp
next
  case (Cons c cs)
  show ?case
  proof (cases c)
    case (UploadEncryptedImage a t d)
    from Cons.prems have len: "unat (imageCount s) = length as"
      by (simp add: created_inv_def)
    show ?thesis
    proof (cases "imageCount s = - 1")
      case True
      with len have "\<not> length as < 2 ^ 256 - 1"
        using full_counter [of "imageCount s"] by simp
      moreover from True have "step E s c = s"
        by (simp add: UploadEncryptedImage step_def uploadEncryptedImage_def)
      ultimately show ?thesis
        using Cons.IH [OF Cons.prems] by (simp add: UploadEncryptedImage)
    next
      case False
      with len have "length as < 2 ^ 256 - 1"
        using full_counter [of "imageCount s"] by simp
      moreover have "created_inv (as @ [a]) (step E s c)"
        unfolding UploadEncryptedImage
        by (rule created_inv_upload [OF Cons.prems False])
      ultimately show ?thesis
        using Cons.IH [of "as @ [a]" "step E s c"] by (simp add: UploadEncryptedImage)
    qed
  next
    case (RequestReconstruction a i)
    then have "created_inv as (step E s c)"
      by (intro created_inv_other [OF Cons.prems]) simp
    with RequestReconstruction Cons.IH show ?thesis by simp
  next
    case (ProcessReconstruction t r ct pf)
    then have "created_inv as (step E s c)"
      by (intro created_inv_other [OF Cons.prems]) simp
    with ProcessReconstruction Cons.IH show ?thesis by simp
  qed
qed

text \<open>
  A library that learns no request id but the ones it returns, and accepts a callback
  only for an id it knows, knows after a run at most the ids issued in it.
\<close>

lemma known_step:
  assumes issue: "\<And>f cts sel r f'. requestDecryption E f cts sel = Some (r, f') \<Longrightarrow>
                    known f' \<subseteq> insert r (known f)"
    and check: "\<And>f r ct pf f'. checkSignatures E f r ct pf = Some f' \<Longrightarrow>
                    r \<in> known f \<and> known f' \<subseteq> known f"
  shows "known (fhe (step E s c)) \<subseteq> known (fhe s) \<union> set (issued_by E s c)"
proof (cases c)
  case (UploadEncryptedImage a t d)
  then show ?thesis
    by (simp add: step_def uploadEncryptedImage_def Let_def)
next
  case (RequestReconstruction a i)
  show ?thesis
  proof (cases "requestReconstruction E s a i")
    case (Inl e)
    with RequestReconstruction show ?thesis
      by (simp add: step_def)
  next
    case (Inr s')
    then obtain r f' where
      handoff: "requestDecryption E (fhe s) [toBytes32 E (encryptedData (image_at s i))]
                  (selector E) = Some (r, f')"
      and s': "fhe s' = f'"
      by (auto simp: requestReconstruction_def Let_def split: if_splits option.splits)
    from issue [OF handoff] have "known f' \<subseteq> insert r (known (fhe s))" .
    with RequestReconstruction Inr handoff s' show ?thesis
      by (auto simp: step_def issued_by_def succeeds_def)
  qed
next
  case (ProcessReconstruction t r ct pf)
  show ?thesis
  proof (cases "processReconstruction E s t r ct pf")
    case (Inl e)
    with ProcessReconstruction show ?thesis
      by (simp add: step_def)
  next
    case (Inr s')
    then obtain f' where ok: "checkSignatures E (fhe s) r ct pf = Some f'" and s': "fhe s' = f'"
      by (auto simp: processReconstruction_def split: option.splits)
    from check [OF ok] have "known f' \<subseteq> known (fhe s)"
      by simp
    with ProcessReconstruction Inr s' show ?thesis
      by (auto simp: step_def)
  qed
qed

lemma known_exec:
  assumes issue: "\<And>f cts sel r f'. requestDecryption E f cts sel = Some (r, f') \<Longrightarrow>
                    known f' \<subseteq> insert r (known f)"
    and check: "\<And>f r ct pf f'. checkSignatures E f r ct pf = Some f' \<Longrightarrow>
                    r \<in> known f \<and> known f' \<subseteq> known f"
  shows "known (fhe (exec E s cs)) \<subseteq> known (fhe s) \<union> set (issued_ids E s cs)"
proof (induction cs arbitrary: s)
  case Nil
  then show ?case by simp
next
  case (Cons c cs)
  have "known (fhe (exec E (step E s c) cs))
      \<subseteq> known (fhe (step E s c)) \<union> set (issued_ids E (step E s c) cs)"
    by (rule Cons.IH)
  moreover have "known (fhe (step E s c)) \<subseteq> known (fhe s) \<union> set (issued_by E s c)"
    by (rule known_step [of E known, OF issue check])
  ultimately show ?case
    by auto
qed

lemma blank_inv_init: "blank_inv (init_contract f0)"
  by (simp add: blank_inv_def init_contract_def image_at_def zero_image_def)

lemma blank_inv_step: "blank_inv s \<Longrightarrow> blank_inv (step E s c)"
proof (cases c)
  case (UploadEncryptedImage a t d)
  assume "blank_inv s"
  with UploadEncryptedImage show ?thesis
    by (simp add: blank_inv_def step_def uploadEncryptedImage_def Let_def image_at_def
        uploaded_ids_append)
next
  case (RequestReconstruction a i)
  assume "blank_inv s"
  with RequestReconstruction show ?thesis
    by (simp add: blank_inv_def step_def requestReconstruction_def Let_def image_at_def
        uploaded_ids_append split: option.splits)
next
  case (ProcessReconstruction t r ct pf)
  assume "blank_inv s"
  with ProcessReconstruction show ?thesis
    by (simp add: blank_inv_def step_def processReconstruction_def image_at_def
        uploaded_ids_append split: option.splits)
qed

lemma blank_inv_exec: "blank_inv s \<Longrightarrow> blank_inv (exec E s cs)"
  by (induction cs arbitrary: s) (simp_all add: blank_inv_step)






section \<open>The claims\<close>

subsection \<open>C1: a second request before any callback\<close>

text \<open>
  C1, as stated, fails. With the library stand-in \<open>counting_FHE\<close>, after one upload by
  address 10, the owner's first \<open>requestReconstruction\<close> on id 1 succeeds and so does a
  second one made right after it, with no callback in between.
\<close>

theorem C1_second_request_accepted:
  "succeeds (requestReconstruction counting_FHE
     (exec counting_FHE (init_contract []) [UploadEncryptedImage 10 100 77]) 10 1) \<and>
   succeeds (requestReconstruction counting_FHE
     (exec counting_FHE (init_contract [])
        [UploadEncryptedImage 10 100 77, RequestReconstruction 10 1]) 10 1)"
  by (simp add: run_defs)

text \<open>
  C1, amended: after a successful \<open>requestReconstruction\<close> by the owner the record is
  still owned by the caller and still not processed, so a second request on the same id
  passes both \<open>require\<close> checks again: it reverts only if the hand-off to the library
  reverts, and otherwise succeeds, appending one more \<open>ReconstructionRequested\<close> event.
\<close>

theorem C1_second_request_passes_guards:
  assumes "requestReconstruction E s sender i = Inr s'"
  shows "owner (image_at s' i) = sender \<and> \<not> isProcessed (image_at s' i) \<and>
         requestReconstruction E s' sender i =
           (case requestDecryption E (fhe s') [toBytes32 E (encryptedData (image_at s' i))]
                   (selector E) of
              None \<Rightarrow> Inl Library_revert
            | Some (reqId, f'') \<Rightarrow>
                Inr (s'\<lparr>events := events s' @ [ReconstructionRequested i], fhe := f''\<rparr>))"
proof -
  from assms have guards: "owner (image_at s i) = sender" "\<not> isProcessed (image_at s i)"
    by (auto simp: requestReconstruction_def split: if_splits)
  from assms have "encryptedImages s' = encryptedImages s"
    by (auto simp: requestReconstruction_def Let_def split: if_splits option.splits)
  then have same: "image_at s' i = image_at s i"
    by (simp add: image_at_def)
  from guards same show ?thesis
    by (simp add: requestReconstruction_def)
qed

theorem C1_second_request_passes_guards_witness:
  "owner (image_at (exec counting_FHE (init_contract [])
      [UploadEncryptedImage 10 100 77, RequestReconstruction 10 1]) 1) = 10 \<and>
   \<not> isProcessed (image_at (exec counting_FHE (init_contract [])
      [UploadEncryptedImage 10 100 77, RequestReconstruction 10 1]) 1) \<and>
   succeeds (requestReconstruction counting_FHE (exec counting_FHE (init_contract [])
      [UploadEncryptedImage 10 100 77, RequestReconstruction 10 1]) 10 1)"
proof -
  let ?s = "exec counting_FHE (init_contract []) [UploadEncryptedImage 10 100 77]"
  let ?s' = "exec counting_FHE (init_contract [])
      [UploadEncryptedImage 10 100 77, RequestReconstruction 10 1]"
  have first: "requestReconstruction counting_FHE ?s 10 1 = Inr ?s'"
    by (simp add: run_defs)
  have handoff: "requestDecryption counting_FHE (fhe ?s')
      [toBytes32 counting_FHE (encryptedData (image_at ?s' 1))] (selector counting_FHE) \<noteq> None"
    by (simp add: counting_FHE_def)
  from C1_second_request_passes_guards [OF first] handoff show ?thesis
    by (auto simp: succeeds_def split: option.splits)
qed

subsection \<open>C2: a callback with a request id never issued\<close>

text \<open>
  C2: the contract leaves the lookup of the request id to \<open>FHE.checkSignatures\<close>. For
  every library that starts knowing no request id, learns from \<open>requestDecryption\<close> at
  most the id it returns, and accepts a callback only for an id it knows, the following
  holds after any sequence of transactions from deployment: \<open>processReconstruction\<close>
  with a request id that no successful \<open>requestReconstruction\<close> of the run was issued
  fails, with the revert raised inside the library, and the storage after the call is the
  storage before it, so no processed flag has changed and no result was created.
\<close>

theorem C2_unissued_id_rejected:
  assumes fresh: "known f0 = {}"
    and issue: "\<And>f cts sel r f'. requestDecryption E f cts sel = Some (r, f') \<Longrightarrow>
                    known f' \<subseteq> insert r (known f)"
    and check: "\<And>f r ct pf f'. checkSignatures E f r ct pf = Some f' \<Longrightarrow>
                    r \<in> known f \<and> known f' \<subseteq> known f"
    and unissued: "r \<notin> set (issued_ids E (init_contract f0) cs)"
  shows "processReconstruction E (exec E (init_contract f0) cs) now r ct pf = Inl Library_revert \<and>
         step E (exec E (init_contract f0) cs) (ProcessReconstruction now r ct pf)
           = exec E (init_contract f0) cs"
proof -
  let ?s = "exec E (init_contract f0) cs"
  have "known (fhe ?s) \<subseteq> known (fhe (init_contract f0)) \<union> set (issued_ids E (init_contract f0) cs)"
    by (rule known_exec [of E known, OF issue check])
  with fresh unissued have "r \<notin> known (fhe ?s)"
    by (auto simp: init_contract_def)
  with check have "checkSignatures E (fhe ?s) r ct pf = None"
    by (cases "checkSignatures E (fhe ?s) r ct pf") auto
  then show ?thesis
    by (simp add: processReconstruction_def step_def)
qed

theorem C2_unissued_id_rejected_witness:
  "issued_ids counting_FHE (init_contract [])
      [UploadEncryptedImage 10 100 77, RequestReconstruction 10 1] = [1] \<and>
   processReconstruction counting_FHE (exec counting_FHE (init_contract [])
      [UploadEncryptedImage 10 100 77, RequestReconstruction 10 1]) 1000 7 (cleartext_of 5) [1]
     = Inl Library_revert \<and>
   step counting_FHE (exec counting_FHE (init_contract [])
      [UploadEncryptedImage 10 100 77, RequestReconstruction 10 1])
      (ProcessReconstruction 1000 7 (cleartext_of 5) [1])
     = exec counting_FHE (init_contract [])
      [UploadEncryptedImage 10 100 77, RequestReconstruction 10 1]"
proof -
  let ?known = "\<lambda>f :: bytes32 list list. {r :: uint256. 0 < unat r \<and> unat r \<le> length f}"
  let ?cs = "[UploadEncryptedImage 10 100 77, RequestReconstruction 10 1]"
  have fresh: "?known [] = {}"
    by auto
  have issue: "?known f' \<subseteq> insert r (?known f)"
    if "requestDecryption counting_FHE f cts sel = Some (r, f')" for f cts sel r f'
  proof -
    from that have r: "r = word_of_nat (Suc (length f))" and f': "f' = f @ [cts]"
      by (auto simp: counting_FHE_def)
    have "x = r" if "unat x = Suc (length f)" for x :: uint256
    proof -
      have "x = word_of_nat (unat x)"
        by simp
      also have "\<dots> = r"
        by (simp only: that r)
      finally show ?thesis .
    qed
    then show ?thesis
      using f' by (auto simp: le_Suc_eq)
  qed
  have check: "r \<in> ?known f \<and> ?known f' \<subseteq> ?known f"
    if "checkSignatures counting_FHE f r ct pf = Some f'" for f r ct pf f'
    using that by (auto simp: counting_FHE_def split: if_splits)
  have issued: "issued_ids counting_FHE (init_contract []) ?cs = [1]"
    by (simp add: issued_by_def run_defs)
  then have unissued: "7 \<notin> set (issued_ids counting_FHE (init_contract []) ?cs)"
    by simp
  from issued
    C2_unissued_id_rejected [of ?known "[]" counting_FHE 7 ?cs 1000 "cleartext_of 5" "[1]",
      OF fresh issue check unissued]
  show ?thesis
    by simp
qed

subsection \<open>C3: a second completion of a processed record\<close>

text \<open>
  C3, as stated, fails. With \<open>counting_FHE\<close>: address 10 uploads (id 1) and requests
  (request id 1), and a callback with cleartext 5 completes record 1. A second callback
  for id 1, with cleartext 9, is accepted too, and the stored result changes from the
  handle of 5 to the handle of 9.
\<close>

theorem C3_second_completion_accepted:
  "isProcessed (image_at (exec counting_FHE (init_contract [])
      [UploadEncryptedImage 10 100 77, RequestReconstruction 10 1,
       ProcessReconstruction 200 1 (cleartext_of 5) [1]]) 1) \<and>
   encryptedResult (result_at (exec counting_FHE (init_contract [])
      [UploadEncryptedImage 10 100 77, RequestReconstruction 10 1,
       ProcessReconstruction 200 1 (cleartext_of 5) [1]]) 1) = 5 \<and>
   succeeds (processReconstruction counting_FHE (exec counting_FHE (init_contract [])
      [UploadEncryptedImage 10 100 77, RequestReconstruction 10 1,
       ProcessReconstruction 200 1 (cleartext_of 5) [1]]) 300 1 (cleartext_of 9) [1]) \<and>
   encryptedResult (result_at (exec counting_FHE (init_contract [])
      [UploadEncryptedImage 10 100 77, RequestReconstruction 10 1,
       ProcessReconstruction 200 1 (cleartext_of 5) [1],
       ProcessReconstruction 300 1 (cleartext_of 9) [1]]) 1) = 9"
  by (simp add: run_defs decode_5 decode_9)

text \<open>
  C3, amended: \<open>processReconstruction\<close> does not read the processed flag. For a record
  whose flag is already set, a further callback that \<open>FHE.checkSignatures\<close> accepts and
  whose cleartext decodes succeeds: it replaces the stored result of that id by the new
  handle and timestamp, and the flag stays set.
\<close>

theorem C3_completion_overwrites:
  assumes "isProcessed (image_at s r)"
    and "checkSignatures E (fhe s) r ct pf = Some f'"
    and "abi_decode_uint32 ct = Some v"
  shows "succeeds (processReconstruction E s now r ct pf) \<and>
         result_at (step E s (ProcessReconstruction now r ct pf)) r =
           \<lparr>imageId = r, encryptedResult = asEuint32 E v, timestamp_res = now\<rparr> \<and>
         isProcessed (image_at (step E s (ProcessReconstruction now r ct pf)) r)"
  using assms(2,3)
  by (simp add: processReconstruction_def step_def succeeds_def result_at_def image_at_def)

theorem C3_completion_overwrites_witness:
  "result_at (step counting_FHE (exec counting_FHE (init_contract [])
      [UploadEncryptedImage 10 100 77, RequestReconstruction 10 1,
       ProcessReconstruction 200 1 (cleartext_of 5) [1]])
      (ProcessReconstruction 300 1 (cleartext_of 9) [1])) 1 =
     \<lparr>imageId = 1, encryptedResult = 9, timestamp_res = 300\<rparr>"
proof -
  let ?s = "exec counting_FHE (init_contract [])
      [UploadEncryptedImage 10 100 77, RequestReconstruction 10 1,
       ProcessReconstruction 200 1 (cleartext_of 5) [1]]"
  have flagged: "isProcessed (image_at ?s 1)"
    by (simp add: run_defs decode_5)
  have accepted: "checkSignatures counting_FHE (fhe ?s) 1 (cleartext_of 9) [1] = Some (fhe ?s)"
    by (simp add: run_defs decode_5)
  have wrap: "asEuint32 counting_FHE 9 = 9"
    by (simp add: counting_FHE_def)
  from C3_completion_overwrites [OF flagged accepted decode_9, of 300] wrap show ?thesis
    by simp
qed

subsection \<open>C4: calls by someone who is not the owner\<close>

text \<open>
  C4: for every record and every caller other than its owner, \<open>requestReconstruction\<close>
  and \<open>getReconstructionResult\<close> fail with the error of the owner check, and the
  storage after the rejected request is the storage before it: no field of the record,
  no stored result and no owner's list has changed.
\<close>

theorem C4_not_owner_rejected:
  assumes "owner (image_at s i) \<noteq> caller"
  shows "requestReconstruction E s caller i = Inl Not_image_owner \<and>
         step E s (RequestReconstruction caller i) = s \<and>
         getReconstructionResult s caller i = Inl Not_image_owner"
  using assms by (simp add: requestReconstruction_def getReconstructionResult_def step_def)

theorem C4_not_owner_rejected_witness:
  "owner (image_at (exec counting_FHE (init_contract []) [UploadEncryptedImage 10 100 77]) 1)
     \<noteq> 11 \<and>
   requestReconstruction counting_FHE
     (exec counting_FHE (init_contract []) [UploadEncryptedImage 10 100 77]) 11 1
     = Inl Not_image_owner \<and>
   step counting_FHE (exec counting_FHE (init_contract []) [UploadEncryptedImage 10 100 77])
     (RequestReconstruction 11 1)
     = exec counting_FHE (init_contract []) [UploadEncryptedImage 10 100 77] \<and>
   getReconstructionResult
     (exec counting_FHE (init_contract []) [UploadEncryptedImage 10 100 77]) 11 1
     = Inl Not_image_owner"
proof -
  have other: "owner (image_at
      (exec counting_FHE (init_contract []) [UploadEncryptedImage 10 100 77]) 1) \<noteq> 11"
    by (simp add: run_defs)
  from other C4_not_owner_rejected [OF other, of counting_FHE] show ?thesis
    by blast
qed

subsection \<open>C5: ids and owners' lists\<close>

text \<open>
  C5: take any sequence of transactions on a freshly deployed contract (in particular any
  sequence of uploads), and let \<open>a1, ..., an\<close> be the callers of its uploads, in the order
  of the calls. Then \<open>imageCount\<close> is \<open>n\<close>; the \<open>k\<close>-th upload was assigned id \<open>k\<close>,
  as its \<open>ImageUploaded\<close> event says, so each new id is the previous count plus one,
  starting at 1; the record stored at id \<open>k\<close> carries the id \<open>k\<close> and the owner \<open>ak\<close>;
  the ids are pairwise different and strictly increasing; and \<open>getUserImageIds\<close>
  returns for every address exactly the ids \<open>k\<close> with \<open>ak\<close> that address, in the order
  of creation.
\<close>

theorem C5_ids_dense_and_listed:
  "unat (imageCount (exec E (init_contract f0) cs)) = length (accepted_uploads 0 cs) \<and>
   upload_log (events (exec E (init_contract f0) cs)) = numbered (accepted_uploads 0 cs) \<and>
   map (stored (exec E (init_contract f0) cs))
       (ids_upto (imageCount (exec E (init_contract f0) cs)))
     = numbered (accepted_uploads 0 cs) \<and>
   map fst (numbered (accepted_uploads 0 cs))
     = ids_upto (imageCount (exec E (init_contract f0) cs)) \<and>
   distinct (map fst (numbered (accepted_uploads 0 cs))) \<and>
   sorted_wrt (<) (map fst (numbered (accepted_uploads 0 cs))) \<and>
   getUserImageIds (exec E (init_contract f0) cs) u =
     map fst (filter (\<lambda>p. snd p = u) (numbered (accepted_uploads 0 cs)))"
proof -
  have inv: "created_inv (accepted_uploads 0 cs) (exec E (init_contract f0) cs)"
    using created_inv_exec [OF created_inv_init, of cs E f0] by simp
  then have "map fst (numbered (accepted_uploads 0 cs))
      = ids_upto (imageCount (exec E (init_contract f0) cs))"
    by (simp add: created_inv_def fst_numbered ids_upto_def del: upt_Suc)
  with inv show ?thesis
    by (simp add: created_inv_def getUserImageIds_def distinct_ids sorted_ids)
qed


theorem C5_ids_dense_and_listed_witness:
  "upload_log (events (exec counting_FHE (init_contract [])
      [UploadEncryptedImage 10 100 77, UploadEncryptedImage 11 101 78,
       UploadEncryptedImage 10 102 79])) = [(1, 10), (2, 11), (3, 10)] \<and>
   map (stored (exec counting_FHE (init_contract [])
      [UploadEncryptedImage 10 100 77, UploadEncryptedImage 11 101 78,
       UploadEncryptedImage 10 102 79])) [1, 2, 3] = [(1, 10), (2, 11), (3, 10)] \<and>
   getUserImageIds (exec counting_FHE (init_contract [])
      [UploadEncryptedImage 10 100 77, UploadEncryptedImage 11 101 78,
       UploadEncryptedImage 10 102 79]) 10 = [1, 3]"
proof -
  let ?cs = "[UploadEncryptedImage 10 100 77, UploadEncryptedImage 11 101 78,
       UploadEncryptedImage 10 102 79]"
  have callers: "accepted_uploads 0 ?cs = [10, 11, 10]"
    by simp
  have pairs: "numbered [10, 11, 10] = [(1, 10), (2, 11), (3, 10)]"
    by (simp add: numbered_def)
  have count: "imageCount (exec counting_FHE (init_contract []) ?cs) = 3"
    by (simp add: run_defs)
  have ids: "ids_upto 3 = [1, 2, 3]"
    by code_simp
  have mine: "map fst (filter (\<lambda>p. snd p = 10) [(1, 10), (2, 11), (3, 10 :: address)])
      = [1, 3 :: uint256]"
    by simp
  from C5_ids_dense_and_listed [of counting_FHE "[]" ?cs 10] show ?thesis
    by (simp only: callers pairs count ids mine)
qed

subsection \<open>C6: metadata of an id that was never created\<close>

text \<open>
  C6, as stated, fails. On the freshly deployed contract no record exists, and
  \<open>getImageMetadata\<close> for id 5 returns a value: the zero address, timestamp 0 and
  \<open>false\<close>.
\<close>

theorem C6_metadata_of_missing_id:
  "getImageMetadata (init_contract ([] :: bytes32 list list)) 5 = Inr (0, 0, False)"
  by (simp add: run_defs)

text \<open>
  C6, amended: \<open>getImageMetadata\<close> has no existence check and never fails. For an id
  that no upload has assigned, in any state reached by transactions from deployment, it
  returns the zero address as owner and 0 as timestamp, together with the stored
  processed flag.
\<close>

theorem C6_metadata_defaults:
  assumes "i \<notin> set (uploaded_ids (events (exec E (init_contract f0) cs)))"
  shows "getImageMetadata (exec E (init_contract f0) cs) i =
           Inr (0, 0, isProcessed (image_at (exec E (init_contract f0) cs) i))"
proof -
  have "blank_inv (exec E (init_contract f0) cs)"
    by (rule blank_inv_exec) (rule blank_inv_init)
  with assms show ?thesis
    by (simp add: blank_inv_def getImageMetadata_def Let_def)
qed

theorem C6_metadata_defaults_witness:
  "5 \<notin> set (uploaded_ids (events (exec counting_FHE (init_contract [])
      [UploadEncryptedImage 10 100 77]))) \<and>
   getImageMetadata (exec counting_FHE (init_contract []) [UploadEncryptedImage 10 100 77]) 5
     = Inr (0, 0, False)"
proof -
  have missing: "5 \<notin> set (uploaded_ids (events (exec counting_FHE (init_contract [])
      [UploadEncryptedImage 10 100 77])))"
    by (simp add: run_defs)
  have flag: "\<not> isProcessed (image_at (exec counting_FHE (init_contract [])
      [UploadEncryptedImage 10 100 77]) 5)"
    by (simp add: run_defs)
  from missing flag C6_metadata_defaults [OF missing] show ?thesis
    by simp
qed

subsection \<open>C7: reading the result\<close>




subsection \<open>C8: stored results and the processed flag\<close>




subsection \<open>C9: completion without a request\<close>




subsection \<open>C10: what a successful request changes\<close>

text \<open>
  C10: a successful \<open>requestReconstruction\<close> changes nothing of the contract's own
  storage: \<open>imageCount\<close>, every record, every stored result and every owner's list are
  as before. The request id returned by the library is stored nowhere. What the call
  leaves behind is the hand-off to the library, which is given the one ciphertext of the
  record, and one \<open>ReconstructionRequested\<close> event for the id at the end of the log.
\<close>

theorem C10_request_changes_no_storage:
  assumes "requestReconstruction E s caller i = Inr s'"
  shows "imageCount s' = imageCount s \<and>
         encryptedImages s' = encryptedImages s \<and>
         reconstructionResults s' = reconstructionResults s \<and>
         userImages s' = userImages s \<and>
         events s' = events s @ [ReconstructionRequested i] \<and>
         (case requestDecryption E (fhe s) [toBytes32 E (encryptedData (image_at s i))]
                 (selector E) of
            None \<Rightarrow> False
          | Some (reqId, f') \<Rightarrow>
              s' = s\<lparr>events := events s @ [ReconstructionRequested i], fhe := f'\<rparr>)"
  using assms
  by (auto simp: requestReconstruction_def Let_def split: if_splits option.splits)

theorem C10_request_changes_no_storage_witness:
  "imageCount (exec counting_FHE (init_contract [])
      [UploadEncryptedImage 10 100 77, RequestReconstruction 10 1]) = 1 \<and>
   encryptedImages (exec counting_FHE (init_contract [])
      [UploadEncryptedImage 10 100 77, RequestReconstruction 10 1]) =
     encryptedImages (exec counting_FHE (init_contract []) [UploadEncryptedImage 10 100 77]) \<and>
   events (exec counting_FHE (init_contract [])
      [UploadEncryptedImage 10 100 77, RequestReconstruction 10 1]) =
     [ImageUploaded 1 10 100, ReconstructionRequested 1]"
proof -
  let ?s = "exec counting_FHE (init_contract []) [UploadEncryptedImage 10 100 77]"
  let ?s' = "exec counting_FHE (init_contract [])
      [UploadEncryptedImage 10 100 77, RequestReconstruction 10 1]"
  have request: "requestReconstruction counting_FHE ?s 10 1 = Inr ?s'"
    by (simp add: run_defs)
  have count: "imageCount ?s = 1"
    by (simp add: run_defs)
  have log: "events ?s = [ImageUploaded 1 10 100]"
    by (simp add: run_defs)
  from C10_request_changes_no_storage [OF request] count log show ?thesis
    by simp
qed

end
